theory Spec2Isabelle
  imports Complex_Main "HOL-Library.Word"
begin

section \<open>The key handler of the YouTube Speed Control extension\<close>

text \<open>
  The development embeds the shortcut handler of the extension (the immediately invoked
  function that publishes \<open>window.keyHandler\<close>): the normalisation of an input event to a
  combo string, the registry of bindings with \<open>bind\<close>, \<open>unbind\<close> and \<open>unbindAll\<close>, and the
  listeners the handler installs on the document.

  Conventions of the embedding.
  \<^item> A JavaScript string is a \<open>string\<close> of ASCII code units. On such strings
    \<open>toLowerCase\<close> maps \<open>A\<close>..\<open>Z\<close> to \<open>a\<close>..\<open>z\<close> and \<open>trim\<close> strips the code units 9 to 13
    and 32. What the two built-in functions do to other code units (the letters and
    the white space of Unicode outside ASCII) is not modelled, and a statement that
    depends on it carries the hypothesis that the string is ASCII.
  \<^item> A dynamically typed argument is a \<open>jsval\<close>. A function object is \<open>JFun f\<close>, with
    \<open>f\<close> its identity. \<open>JObj\<close> is an object without a \<open>toLowerCase\<close> method, such as
    \<open>{}\<close> or an array; an object that has one, such as a \<open>String\<close> wrapper, is not a
    value of the type, and nothing is stated about it.
  \<^item> A thrown \<open>TypeError\<close> is the left injection of a sum.
  \<^item> The module-level array \<open>bindings\<close> and the object \<open>modifierState\<close> are passed in and
    returned explicitly.
  \<^item> What a listener does to its environment is a trace of actions: the callbacks it
    invokes and its own calls of \<open>preventDefault\<close> and \<open>stopPropagation\<close>, in order.
    The value a callback returns is given by a function \<open>run\<close>; callbacks are taken to
    return normally and not to call \<open>bind\<close> or \<open>unbind\<close> themselves.
\<close>

subsection \<open>JavaScript values\<close>

datatype error = TypeError

datatype 'cb jsval =
    JUndefined
  | JNull
  | JBool bool
  | JNum real
  | JNaN
  | JStr string
  | JFun 'cb
  | JObj

text \<open>\<open>!v\<close> is \<open>\<not> truthy v\<close>.\<close>

fun truthy :: "'cb jsval \<Rightarrow> bool" where
  "truthy JUndefined = False"
| "truthy JNull = False"
| "truthy (JBool b) = b"
| "truthy (JNum r) = (r \<noteq> 0)"
| "truthy JNaN = False"
| "truthy (JStr s) = (s \<noteq> [])"
| "truthy (JFun f) = True"
| "truthy JObj = True"

fun typeof :: "'cb jsval \<Rightarrow> string" where
  "typeof JUndefined = ''undefined''"
| "typeof JNull = ''object''"
| "typeof (JBool b) = ''boolean''"
| "typeof (JNum r) = ''number''"
| "typeof JNaN = ''number''"
| "typeof (JStr s) = ''string''"
| "typeof (JFun f) = ''function''"
| "typeof JObj = ''object''"

text \<open>
  Whether \<open>v.toLowerCase\<close> is a method: among the values of the type only a string
  has one.
\<close>

fun has_toLowerCase :: "'cb jsval \<Rightarrow> bool" where
  "has_toLowerCase (JStr s) = True"
| "has_toLowerCase v = False"

text \<open>\<open>s === v\<close> for a string \<open>s\<close>, and \<open>n === v\<close> for an integral number \<open>n\<close>.\<close>

fun strict_eq_str :: "string \<Rightarrow> 'cb jsval \<Rightarrow> bool" where
  "strict_eq_str s (JStr t) = (s = t)"
| "strict_eq_str s v = False"

fun strict_eq_num :: "int \<Rightarrow> 'cb jsval \<Rightarrow> bool" where
  "strict_eq_num n (JNum r) = (real_of_int n = r)"
| "strict_eq_num n v = False"

subsection \<open>Strings\<close>

definition is_upper :: "char \<Rightarrow> bool" where
  "is_upper c = (65 \<le> (of_char c :: nat) \<and> (of_char c :: nat) \<le> 90)"

definition is_space :: "char \<Rightarrow> bool" where
  "is_space c = ((9 \<le> (of_char c :: nat) \<and> (of_char c :: nat) \<le> 13) \<or> (of_char c :: nat) = 32)"

definition to_lower_char :: "char \<Rightarrow> char" where
  "to_lower_char c =
     (if is_upper c then ''abcdefghijklmnopqrstuvwxyz'' ! ((of_char c :: nat) - 65) else c)"

definition toLowerCase :: "string \<Rightarrow> string" where
  "toLowerCase s = map to_lower_char s"

definition trim :: "string \<Rightarrow> string" where
  "trim s = rev (dropWhile is_space (rev (dropWhile is_space s)))"

text \<open>\<open>s.split('+')\<close>: the pieces between the plus signs; the empty string gives one
  empty piece.\<close>

fun split_plus :: "string \<Rightarrow> string list" where
  "split_plus [] = [[]]"
| "split_plus (c # cs) =
     (if c = CHR ''+'' then [] # split_plus cs
      else (case split_plus cs of
              [] \<Rightarrow> [[c]]
            | t # ts \<Rightarrow> (c # t) # ts))"

text \<open>\<open>keys.join('+')\<close>.\<close>

fun join_plus :: "string list \<Rightarrow> string" where
  "join_plus [] = []"
| "join_plus [k] = k"
| "join_plus (k # ks) = k @ ''+'' @ join_plus ks"

text \<open>The decimal text of an integral number, as string concatenation produces it.\<close>

definition digit_char :: "nat \<Rightarrow> char" where
  "digit_char d = ''0123456789'' ! d"

fun digits :: "nat \<Rightarrow> string" where
  "digits n = (if n < 10 then [digit_char n] else digits (n div 10) @ [digit_char (n mod 10)])"

declare digits.simps [simp del]

definition number_toString :: "int \<Rightarrow> string" where
  "number_toString i = (if i < 0 then ''-'' @ digits (nat (- i)) else digits (nat i))"

subsection \<open>Events and bindings\<close>

text \<open>
  The fields of a DOM event the handler reads. \<open>key\<close> is \<open>None\<close> for an event object
  without that property (a mouse or wheel event): reading \<open>event.key.toLowerCase\<close>
  then throws. \<open>deltaY\<close> is a finite number; the handler only asks whether it is
  negative. \<open>button\<close> is the button index of a \<open>MouseEvent\<close>, which the DOM declares
  as a \<open>short\<close>, a signed integer of 16 bits read with \<open>sint\<close>; it is \<open>None\<close> for an
  event object without that property (an \<open>Event\<close> that is not a \<open>MouseEvent\<close>), where
  \<open>event.button\<close> is \<open>undefined\<close> and \<open>undefined + 1\<close> is \<open>NaN\<close>.
\<close>

record event =
  type_e :: string
  shiftKey :: bool
  ctrlKey :: bool
  altKey :: bool
  metaKey :: bool
  key :: "string option"
  deltaY :: real
  button :: "16 word option"

record 'cb binding =
  id_b :: int
  keys :: "string list"
  combo :: string
  callback :: 'cb

record modifier_state =
  shift :: bool
  ctrl :: bool
  alt :: bool
  meta :: bool

record 'cb state =
  bindings :: "'cb binding list"
  modifierState :: modifier_state

datatype 'cb action = Call 'cb | PreventDefault | StopPropagation

subsection \<open>parseCombo, normalizeKey, getComboFromEvent\<close>

definition parseCombo :: "'cb jsval \<Rightarrow> error + string list" where
  "parseCombo combo_arg =
     (if \<not> truthy combo_arg then Inr []
      else (case combo_arg of
              JStr s \<Rightarrow> Inr (map trim (split_plus (toLowerCase s)))
            | _ \<Rightarrow> Inl TypeError))"

definition normalizeKey :: "string \<Rightarrow> string" where
  "normalizeKey k =
     (if k = ''control'' then ''ctrl''
      else if k = ''command'' \<or> k = ''meta'' then ''cmd''
      else if k = ''option'' then ''alt''
      else if k = ''>'' then ''.''
      else if k = ''<'' then '',''
      else if k = '' '' then ''space''
      else toLowerCase k)"

definition modifier_keys :: "event \<Rightarrow> string list" where
  "modifier_keys e =
     (if shiftKey e then [''shift''] else []) @
     (if ctrlKey e then [''ctrl''] else []) @
     (if altKey e then [''alt''] else []) @
     (if metaKey e then [''cmd''] else [])"

definition getComboFromEvent :: "event \<Rightarrow> error + string" where
  "getComboFromEvent e =
     (if type_e e = ''wheel'' then
        Inr (join_plus (modifier_keys e @ [if deltaY e < 0 then ''wheel_up'' else ''wheel_down'']))
      else if type_e e = ''mousedown'' then
        Inr (join_plus (modifier_keys e @
               [if button e = Some 1 then ''middle_click''
                else ''mouse'' @
                     (case button e of
                        None \<Rightarrow> ''NaN''
                      | Some b \<Rightarrow> number_toString (sint b + 1))]))
      else (case key e of
              None \<Rightarrow> Inl TypeError
            | Some k0 \<Rightarrow>
                (let k = toLowerCase k0 in
                 if k = ''shift'' \<or> k = ''control'' \<or> k = ''alt'' \<or> k = ''meta'' then Inr []
                 else Inr (join_plus (modifier_keys e @ [normalizeKey k])))))"

subsection \<open>bind, unbind, unbindAll\<close>

text \<open>
  \<open>bind\<close> takes the two numbers it reads from its environment: \<open>now\<close> is \<open>Date.now()\<close>
  and \<open>rnd\<close> is \<open>Math.floor(Math.random() * 1000)\<close>. It returns the registry and
  either the number it returns or the error it throws.
\<close>

definition bind ::
  "int \<Rightarrow> int \<Rightarrow> 'cb jsval \<Rightarrow> 'cb jsval \<Rightarrow> 'cb binding list \<Rightarrow> 'cb binding list \<times> (error + int)"
where
  "bind now rnd combo_arg callback_arg bs =
     (if \<not> truthy combo_arg \<or> typeof callback_arg \<noteq> ''function'' then (bs, Inr (- 1))
      else (let i = now + rnd in
            case parseCombo combo_arg of
              Inl err \<Rightarrow> (bs, Inl err)
            | Inr ks \<Rightarrow>
                (case (combo_arg, callback_arg) of
                   (JStr s, JFun f) \<Rightarrow>
                     (bs @ [\<lparr>id_b = i, keys = ks, combo = s, callback = f\<rparr>], Inr i)
                 | _ \<Rightarrow> (bs, Inl TypeError))))"

text \<open>\<open>findIndex\<close> returns \<open>-1\<close> when no element satisfies the predicate.\<close>

fun findIndex :: "('a \<Rightarrow> bool) \<Rightarrow> 'a list \<Rightarrow> int" where
  "findIndex P [] = - 1"
| "findIndex P (x # xs) =
     (if P x then 0 else (let i = findIndex P xs in if i = - 1 then - 1 else i + 1))"

text \<open>\<open>xs.splice(i, 1)\<close>.\<close>

definition splice_one :: "nat \<Rightarrow> 'a list \<Rightarrow> 'a list" where
  "splice_one i xs = take i xs @ drop (Suc i) xs"

text \<open>
  The loop of \<open>unbind\<close> over a combo runs its index from \<open>length - 1\<close> down to \<open>0\<close>;
  the first argument here is the index plus one.
\<close>

fun unbind_loop :: "nat \<Rightarrow> 'cb jsval \<Rightarrow> 'cb binding list \<Rightarrow> bool \<Rightarrow> 'cb binding list \<times> bool" where
  "unbind_loop 0 v bs found = (bs, found)"
| "unbind_loop (Suc i) v bs found =
     (if strict_eq_str (combo (bs ! i)) v then unbind_loop i v (splice_one i bs) True
      else unbind_loop i v bs found)"

definition unbind :: "'cb jsval \<Rightarrow> 'cb binding list \<Rightarrow> 'cb binding list \<times> bool" where
  "unbind idOrCombo bs =
     (if \<not> truthy idOrCombo then (bs, False)
      else if typeof idOrCombo = ''number'' then
        (let index = findIndex (\<lambda>b. strict_eq_num (id_b b) idOrCombo) bs in
         if index \<noteq> - 1 then (splice_one (nat index) bs, True) else (bs, False))
      else unbind_loop (length bs) idOrCombo bs False)"

definition unbindAll :: "'cb binding list \<Rightarrow> 'cb binding list" where
  "unbindAll bs = []"

subsection \<open>The listeners\<close>

definition update_modifiers :: "modifier_state \<Rightarrow> event \<Rightarrow> modifier_state" where
  "update_modifiers m e =
     (if type_e e = ''keydown'' then
        (if key e = Some ''Shift'' then m\<lparr>shift := True\<rparr>
         else if key e = Some ''Control'' then m\<lparr>ctrl := True\<rparr>
         else if key e = Some ''Alt'' then m\<lparr>alt := True\<rparr>
         else if key e = Some ''Meta'' then m\<lparr>meta := True\<rparr>
         else m)
      else if type_e e = ''keyup'' then
        (if key e = Some ''Shift'' then m\<lparr>shift := False\<rparr>
         else if key e = Some ''Control'' then m\<lparr>ctrl := False\<rparr>
         else if key e = Some ''Alt'' then m\<lparr>alt := False\<rparr>
         else if key e = Some ''Meta'' then m\<lparr>meta := False\<rparr>
         else m)
      else m)"

text \<open>The loop of \<open>handleKeyEvent\<close> over the registry.\<close>

fun key_loop :: "('cb \<Rightarrow> event \<Rightarrow> 'cb jsval) \<Rightarrow> event \<Rightarrow> string \<Rightarrow> 'cb binding list \<Rightarrow> 'cb action list" where
  "key_loop run e c [] = []"
| "key_loop run e c (b # bs) =
     (if combo b = c then
        Call (callback b) #
        (if run (callback b) e = JBool False then [PreventDefault, StopPropagation] else []) @
        key_loop run e c bs
      else key_loop run e c bs)"

definition handleKeyEvent ::
  "('cb \<Rightarrow> event \<Rightarrow> 'cb jsval) \<Rightarrow> 'cb state \<Rightarrow> event \<Rightarrow> 'cb state \<times> (error + 'cb action list)"
where
  "handleKeyEvent run st e =
     (let st' = st\<lparr>modifierState := update_modifiers (modifierState st) e\<rparr> in
      if type_e e \<noteq> ''keydown'' then (st', Inr [])
      else (case getComboFromEvent e of
              Inl err \<Rightarrow> (st', Inl err)
            | Inr c \<Rightarrow> if c = [] then (st', Inr []) else (st', Inr (key_loop run e c (bindings st')))))"

text \<open>The loop of \<open>handleMouseEvent\<close>: it returns after the first binding it invokes.\<close>

fun mouse_loop :: "string \<Rightarrow> 'cb binding list \<Rightarrow> 'cb action list" where
  "mouse_loop c [] = []"
| "mouse_loop c (b # bs) = (if combo b = c then [Call (callback b)] else mouse_loop c bs)"

definition handleMouseEvent ::
  "('cb \<Rightarrow> event \<Rightarrow> 'cb jsval) \<Rightarrow> 'cb state \<Rightarrow> event \<Rightarrow> 'cb state \<times> (error + 'cb action list)"
where
  "handleMouseEvent run st e =
     (case getComboFromEvent e of
        Inl err \<Rightarrow> (st, Inl err)
      | Inr c \<Rightarrow> if c = [] then (st, Inr []) else (st, Inr (mouse_loop c (bindings st))))"

text \<open>The search of the \<open>mousedown\<close> listener for a binding of the combo.\<close>

fun comboBound :: "string \<Rightarrow> 'cb binding list \<Rightarrow> bool" where
  "comboBound c [] = False"
| "comboBound c (b # bs) = (if combo b = c then True else comboBound c bs)"

definition mousedownListener ::
  "('cb \<Rightarrow> event \<Rightarrow> 'cb jsval) \<Rightarrow> 'cb state \<Rightarrow> event \<Rightarrow> 'cb state \<times> (error + 'cb action list)"
where
  "mousedownListener run st e =
     (if button e \<noteq> Some 0 then
        (case getComboFromEvent e of
           Inl err \<Rightarrow> (st, Inl err)
         | Inr c \<Rightarrow>
             if comboBound c (bindings st) then
               (case handleMouseEvent run st e of
                  (st', Inl err) \<Rightarrow> (st', Inl err)
                | (st', Inr t) \<Rightarrow> (st', Inr ([PreventDefault, StopPropagation] @ t)))
             else (st, Inr []))
      else (st, Inr []))"

text \<open>
  The four \<open>addEventListener\<close> calls: \<open>keydown\<close> and \<open>keyup\<close> go to \<open>handleKeyEvent\<close>,
  \<open>wheel\<close> to \<open>handleMouseEvent\<close>, \<open>mousedown\<close> to the anonymous listener; no other event
  reaches the handler.
\<close>

definition dispatchEvent ::
  "('cb \<Rightarrow> event \<Rightarrow> 'cb jsval) \<Rightarrow> 'cb state \<Rightarrow> event \<Rightarrow> 'cb state \<times> (error + 'cb action list)"
where
  "dispatchEvent run st e =
     (if type_e e = ''keydown'' \<or> type_e e = ''keyup'' then handleKeyEvent run st e
      else if type_e e = ''wheel'' then handleMouseEvent run st e
      else if type_e e = ''mousedown'' then mousedownListener run st e
      else (st, Inr []))"

text \<open>The callbacks a listener invoked, in order.\<close>

fun calls :: "'cb action list \<Rightarrow> 'cb list" where
  "calls [] = []"
| "calls (Call f # t) = f # calls t"
| "calls (a # t) = calls t"

text \<open>
  The callbacks a listener invoked before it returned or threw. The only error of a
  listener comes from \<open>getComboFromEvent\<close>, before the loop over the registry.
\<close>

fun invoked :: "'cb state \<times> (error + 'cb action list) \<Rightarrow> 'cb list" where
  "invoked (st, Inl err) = []"
| "invoked (st, Inr t) = calls t"

subsection \<open>Notions of the specification\<close>

text \<open>
  The modifier prefix in the specification's words: each modifier flag of the event
  contributes its token followed by a plus sign, in the fixed order shift, ctrl, alt, cmd.
\<close>

definition modifier_prefix :: "event \<Rightarrow> string" where
  "modifier_prefix e =
     (if shiftKey e then ''shift+'' else []) @
     (if ctrlKey e then ''ctrl+'' else []) @
     (if altKey e then ''alt+'' else []) @
     (if metaKey e then ''cmd+'' else [])"

text \<open>
  The decimal text of an integer, stated by reading a string rather than by writing one:
  an optional minus sign, then digits without a leading zero whose value, read from the
  left, is the magnitude.
\<close>

definition digit_value :: "char \<Rightarrow> nat option" where
  "digit_value c =
     (if 48 \<le> (of_char c :: nat) \<and> (of_char c :: nat) \<le> 57
      then Some ((of_char c :: nat) - 48) else None)"

fun digits_value :: "nat \<Rightarrow> string \<Rightarrow> nat option" where
  "digits_value acc [] = Some acc"
| "digits_value acc (c # cs) =
     (case digit_value c of
        None \<Rightarrow> None
      | Some d \<Rightarrow> digits_value (10 * acc + d) cs)"

definition unsigned_decimal :: "string \<Rightarrow> nat \<Rightarrow> bool" where
  "unsigned_decimal t n =
     (t \<noteq> [] \<and> (length t = 1 \<or> hd t \<noteq> CHR ''0'') \<and> digits_value 0 t = Some n)"

definition decimal_text :: "string \<Rightarrow> int \<Rightarrow> bool" where
  "decimal_text t n =
     (if n < 0 then t \<noteq> [] \<and> hd t = CHR ''-'' \<and> unsigned_decimal (tl t) (nat (- n))
      else unsigned_decimal t (nat n))"

text \<open>The pairs of key names the specification calls aliases of one another.\<close>

definition alias_keys :: "string \<Rightarrow> string \<Rightarrow> bool" where
  "alias_keys k1 k2 =
     ((k1 = ''>'' \<and> k2 = ''.'') \<or> (k1 = ''.'' \<and> k2 = ''>'') \<or>
      (k1 = ''<'' \<and> k2 = '','') \<or> (k1 = '','' \<and> k2 = ''<'') \<or>
      (k1 = '' '' \<and> k2 = ''space'') \<or> (k1 = ''space'' \<and> k2 = '' ''))"

definition same_modifiers :: "event \<Rightarrow> event \<Rightarrow> bool" where
  "same_modifiers e1 e2 =
     (shiftKey e1 = shiftKey e2 \<and> ctrlKey e1 = ctrlKey e2 \<and>
      altKey e1 = altKey e2 \<and> metaKey e1 = metaKey e2)"

text \<open>A keydown event with only the shift flag set and the key \<open>>\<close>.\<close>

definition shift_gt_event :: "real \<Rightarrow> 16 word option \<Rightarrow> event" where
  "shift_gt_event d b =
     \<lparr>type_e = ''keydown'', shiftKey = True, ctrlKey = False, altKey = False,
      metaKey = False, key = Some ''>'', deltaY = d, button = b\<rparr>"

text \<open>Sample inputs: a press of the shift key alone, and a registry of two bindings.\<close>

definition shift_key_event :: event where
  "shift_key_event =
     \<lparr>type_e = ''keydown'', shiftKey = True, ctrlKey = False, altKey = False,
      metaKey = False, key = Some ''Shift'', deltaY = 0, button = Some 0\<rparr>"

definition sample_registry :: "nat binding list" where
  "sample_registry =
     [\<lparr>id_b = 1700000000001, keys = [''shift''], combo = ''shift'', callback = 1\<rparr>,
      \<lparr>id_b = 1700000000002, keys = [''shift'', ''.''], combo = ''shift+.'', callback = 2\<rparr>]"

text \<open>Sample inputs for the dispatch: a callback behaviour in which callback 1 returns
  \<open>false\<close> and every other callback returns \<open>undefined\<close>, events, and registries.\<close>

definition no_modifiers :: modifier_state where
  "no_modifiers = \<lparr>shift = False, ctrl = False, alt = False, meta = False\<rparr>"

definition sample_run :: "nat \<Rightarrow> event \<Rightarrow> nat jsval" where
  "sample_run f e = (if f = 1 then JBool False else JUndefined)"

definition wheel_up_event :: event where
  "wheel_up_event =
     \<lparr>type_e = ''wheel'', shiftKey = False, ctrlKey = False, altKey = False,
      metaKey = False, key = None, deltaY = - 10, button = Some 0\<rparr>"

definition right_click_event :: event where
  "right_click_event =
     \<lparr>type_e = ''mousedown'', shiftKey = False, ctrlKey = False, altKey = False,
      metaKey = False, key = None, deltaY = 0, button = Some 2\<rparr>"

definition key_a_event :: event where
  "key_a_event =
     \<lparr>type_e = ''keydown'', shiftKey = False, ctrlKey = False, altKey = False,
      metaKey = False, key = Some ''a'', deltaY = 0, button = Some 0\<rparr>"

definition two_wheel_bindings :: "nat binding list" where
  "two_wheel_bindings =
     fst (bind 1700000000000 2 (JStr ''wheel_up'') (JFun 2)
            (fst (bind 1700000000000 1 (JStr ''wheel_up'') (JFun 1) [])))"

definition wheel_registry :: "nat binding list" where
  "wheel_registry = fst (bind 1700000000000 1 (JStr ''wheel_up'') (JFun 1) [])"

definition mouse3_registry :: "nat binding list" where
  "mouse3_registry = fst (bind 1700000000000 1 (JStr ''mouse3'') (JFun 1) [])"

definition mixed_registry :: "nat binding list" where
  "mixed_registry =
     [\<lparr>id_b = 1700000000001, keys = [''a''], combo = ''a'', callback = 1\<rparr>,
      \<lparr>id_b = 1700000000002, keys = [''a''], combo = ''a'', callback = 2\<rparr>,
      \<lparr>id_b = 1700000000003, keys = [''wheel_up''], combo = ''wheel_up'', callback = 1\<rparr>,
      \<lparr>id_b = 1700000000004, keys = [''mouse3''], combo = ''mouse3'', callback = 1\<rparr>]"

text \<open>The registries the handler can reach: \<open>bind\<close> stores no empty combo, and no
  identifier is zero as long as \<open>Date.now()\<close> is positive.\<close>

definition registry_ok :: "'cb binding list \<Rightarrow> bool" where
  "registry_ok bs = (\<forall>b\<in>set bs. id_b b \<noteq> 0 \<and> combo b \<noteq> [])"

text \<open>The combos that \<open>parseCombo\<close> would change: with an upper-case letter, with white
  space next to a plus sign, or with one of the alias characters.\<close>

definition has_upper :: "string \<Rightarrow> bool" where
  "has_upper s = (\<exists>c\<in>set s. is_upper c)"




text \<open>A key name that is one of the three alias keys, or holds no white space and no
  alias character.\<close>

definition plain_key :: "string \<Rightarrow> bool" where
  "plain_key k =
     (k = ''>'' \<or> k = ''<'' \<or> k = '' '' \<or>
      (\<forall>c\<in>set k. \<not> is_space c \<and> c \<noteq> CHR ''>'' \<and> c \<noteq> CHR ''<''))"

text \<open>
  The events within the scope of the string model that carry what their type promises:
  a mousedown event has a button index, and the key of a keydown event is ASCII.
\<close>

definition ascii_string :: "string \<Rightarrow> bool" where
  "ascii_string s = (\<forall>c\<in>set s. (of_char c :: nat) < 128)"




text \<open>A mousedown event object without a button index.\<close>

definition no_button_event :: event where
  "no_button_event =
     \<lparr>type_e = ''mousedown'', shiftKey = False, ctrlKey = False, altKey = False,
      metaKey = False, key = None, deltaY = 0, button = None\<rparr>"


section \<open>Normalisation of events\<close>

lemma join_plus_snoc: "join_plus (ks @ [t]) = concat (map (\<lambda>k. k @ ''+'') ks) @ t"
proof (induction ks)
  case Nil
  show ?case by simp
next
  case (Cons k ks)
  then show ?case by (cases ks) simp_all
qed

lemma modifier_prefix_concat:
  "concat (map (\<lambda>k. k @ ''+'') (modifier_keys e)) = modifier_prefix e"
  by (simp add: modifier_keys_def modifier_prefix_def)

lemma join_plus_modifiers: "join_plus (modifier_keys e @ [t]) = modifier_prefix e @ t"
  by (simp add: join_plus_snoc modifier_prefix_concat)

lemma getCombo_wheel:
  "type_e e = ''wheel'' \<Longrightarrow>
   getComboFromEvent e = Inr (modifier_prefix e @ (if deltaY e < 0 then ''wheel_up'' else ''wheel_down''))"
  by (simp add: getComboFromEvent_def join_plus_modifiers)

lemma getCombo_mousedown:
  "type_e e = ''mousedown'' \<Longrightarrow>
   getComboFromEvent e =
     Inr (modifier_prefix e @
          (if button e = Some 1 then ''middle_click''
           else ''mouse'' @
                (case button e of None \<Rightarrow> ''NaN'' | Some b \<Rightarrow> number_toString (sint b + 1))))"
  by (simp add: getComboFromEvent_def join_plus_modifiers)

lemma getCombo_key:
  "type_e e \<noteq> ''wheel'' \<Longrightarrow> type_e e \<noteq> ''mousedown'' \<Longrightarrow> key e = Some k0 \<Longrightarrow>
   getComboFromEvent e =
     (if toLowerCase k0 \<in> {''shift'', ''control'', ''alt'', ''meta''} then Inr []
      else Inr (modifier_prefix e @ normalizeKey (toLowerCase k0)))"
  by (simp add: getComboFromEvent_def join_plus_modifiers Let_def)

text \<open>
  Claim C3. For a wheel event the combo is the modifier prefix followed by \<open>wheel_up\<close>
  when \<open>deltaY\<close> is negative and by \<open>wheel_down\<close> otherwise, and it is never the empty
  string.
\<close>

theorem wheel_combo:
  assumes "type_e e = ''wheel''"
  shows "getComboFromEvent e =
           Inr (modifier_prefix e @ (if deltaY e < 0 then ''wheel_up'' else ''wheel_down''))
         \<and> getComboFromEvent e \<noteq> Inr []"
  using assms by (simp add: getCombo_wheel)

theorem wheel_combo_witness:
  "getComboFromEvent \<lparr>type_e = ''wheel'', shiftKey = False, ctrlKey = False, altKey = False,
       metaKey = False, key = None, deltaY = - 10, button = Some 0\<rparr> = Inr ''wheel_up''
   \<and> getComboFromEvent \<lparr>type_e = ''wheel'', shiftKey = False, ctrlKey = False, altKey = False,
       metaKey = False, key = None, deltaY = 10, button = Some 0\<rparr> = Inr ''wheel_down''
   \<and> getComboFromEvent \<lparr>type_e = ''wheel'', shiftKey = True, ctrlKey = False, altKey = True,
       metaKey = False, key = None, deltaY = - 3, button = Some 0\<rparr> = Inr ''shift+alt+wheel_up''"
  using wheel_combo [of "\<lparr>type_e = ''wheel'', shiftKey = False, ctrlKey = False, altKey = False,
       metaKey = False, key = None, deltaY = - 10, button = Some 0\<rparr>"]
    wheel_combo [of "\<lparr>type_e = ''wheel'', shiftKey = False, ctrlKey = False, altKey = False,
       metaKey = False, key = None, deltaY = 10, button = Some 0\<rparr>"]
    wheel_combo [of "\<lparr>type_e = ''wheel'', shiftKey = True, ctrlKey = False, altKey = True,
       metaKey = False, key = None, deltaY = - 3, button = Some 0\<rparr>"]
  by (simp add: modifier_prefix_def)

lemma digits_small: "n < 10 \<Longrightarrow> digits n = [digit_char n]"
  by (simp add: digits.simps)

text \<open>The text \<open>number_toString\<close> gives is the decimal text of the number.\<close>

lemma digits_large: "\<not> n < 10 \<Longrightarrow> digits n = digits (n div 10) @ [digit_char (n mod 10)]"
  by (subst digits.simps) simp

lemma below_ten: "(d::nat) < 10 \<Longrightarrow> d \<in> {0, 1, 2, 3, 4, 5, 6, 7, 8, 9}"
  by auto

lemma digit_value_digit_char: "d < 10 \<Longrightarrow> digit_value (digit_char d) = Some d"
proof -
  assume "d < 10"
  then have "d \<in> {0, 1, 2, 3, 4, 5, 6, 7, 8, 9}" by (rule below_ten)
  then show ?thesis
    by (elim insertE emptyE) (simp_all add: digit_value_def digit_char_def)
qed

lemma digit_char_zero: "d < 10 \<Longrightarrow> digit_char d = CHR ''0'' \<Longrightarrow> d = 0"
proof -
  assume d: "d < 10" and z: "digit_char d = CHR ''0''"
  have "digit_value (digit_char d) = Some d" using d by (rule digit_value_digit_char)
  moreover have "digit_value (CHR ''0'') = Some 0" by (simp add: digit_value_def)
  ultimately show "d = 0" using z by simp
qed

lemma digits_value_snoc:
  "digits_value acc (s @ [c]) =
     (case digits_value acc s of
        None \<Rightarrow> None
      | Some v \<Rightarrow> (case digit_value c of None \<Rightarrow> None | Some d \<Rightarrow> Some (10 * v + d)))"
  by (induction s arbitrary: acc) (simp_all split: option.splits)

lemma digits_value_digits: "digits_value 0 (digits n) = Some n"
proof (induction n rule: digits.induct)
  case (1 n)
  show ?case
  proof (cases "n < 10")
    case True
    then show ?thesis by (simp add: digits_small digit_value_digit_char)
  next
    case False
    have "n mod 10 < 10" by simp
    then have "digit_value (digit_char (n mod 10)) = Some (n mod 10)"
      by (rule digit_value_digit_char)
    then show ?thesis
      using False "1.IH" by (simp add: digits_large digits_value_snoc)
  qed
qed

lemma digits_nonempty: "digits n \<noteq> []"
  by (subst digits.simps) simp

lemma hd_digits_nonzero: "0 < n \<Longrightarrow> hd (digits n) \<noteq> CHR ''0''"
proof (induction n rule: digits.induct)
  case (1 n)
  show ?case
  proof (cases "n < 10")
    case True
    then show ?thesis
      using "1.prems" digit_char_zero [of n] by (auto simp: digits_small)
  next
    case False
    then have "0 < n div 10" by simp
    then have "hd (digits (n div 10)) \<noteq> CHR ''0''"
      using False "1.IH" by simp
    then show ?thesis
      using False digits_nonempty [of "n div 10"] by (simp add: digits_large)
  qed
qed

lemma unsigned_decimal_digits: "unsigned_decimal (digits n) n"
proof (cases "n < 10")
  case True
  then show ?thesis
    using digits_value_digits [of n] by (simp add: unsigned_decimal_def digits_small)
next
  case False
  then have "hd (digits n) \<noteq> CHR ''0''" by (intro hd_digits_nonzero) simp
  then show ?thesis
    by (simp add: unsigned_decimal_def digits_nonempty digits_value_digits)
qed

lemma decimal_text_number_toString: "decimal_text (number_toString i) i"
  using unsigned_decimal_digits [of "nat (- i)"] unsigned_decimal_digits [of "nat i"]
  by (simp add: decimal_text_def number_toString_def)

text \<open>The decimal numeral of a number is unique, so it is the text \<open>number_toString\<close> gives.\<close>

lemma digit_value_inj: "digit_value c = Some d \<Longrightarrow> d < 10 \<and> c = digit_char d"
proof -
  assume h: "digit_value c = Some d"
  then have c: "(of_char c :: nat) = d + 48" and lt: "d < 10"
    by (auto simp: digit_value_def split: if_splits)
  have "digit_value (digit_char d) = Some d" using lt by (rule digit_value_digit_char)
  then have "(of_char (digit_char d) :: nat) = d + 48"
    by (auto simp: digit_value_def split: if_splits)
  then have "(of_char (digit_char d) :: nat) = of_char c" using c by simp
  then have "digit_char d = c" by (simp only: of_char_eq_iff)
  then show ?thesis using lt by simp
qed

lemma digits_value_mono: "digits_value acc s = Some v \<Longrightarrow> acc \<le> v"
proof (induction s arbitrary: acc)
  case Nil
  then show ?case by simp
next
  case (Cons c s)
  then obtain d where "digit_value c = Some d" "digits_value (10 * acc + d) s = Some v"
    by (auto split: option.splits)
  then have "10 * acc + d \<le> v" using Cons.IH by blast
  then show ?case by simp
qed

lemma leading_nonzero_positive:
  assumes "s \<noteq> []" and "hd s \<noteq> CHR ''0''" and "digits_value 0 s = Some v"
  shows "0 < v"
proof -
  obtain c cs where s: "s = c # cs" using assms(1) by (cases s) auto
  then obtain d where d: "digit_value c = Some d" "digits_value (10 * 0 + d) cs = Some v"
    using assms(3) by (auto split: option.splits)
  have c: "c = digit_char d" using digit_value_inj [OF d(1)] by simp
  have "d \<noteq> 0"
  proof
    assume "d = 0"
    then have "c = CHR ''0''" using c by (simp add: digit_char_def)
    then show False using assms(2) s by simp
  qed
  moreover have "d \<le> v" using digits_value_mono [OF d(2)] by simp
  ultimately show ?thesis by simp
qed

lemma unsigned_decimal_unique: "unsigned_decimal t n \<Longrightarrow> t = digits n"
proof (induction t arbitrary: n rule: rev_induct)
  case Nil
  then show ?case by (simp add: unsigned_decimal_def)
next
  case (snoc c s)
  from snoc.prems obtain v d where
    v: "digits_value 0 s = Some v" and d: "digit_value c = Some d" and n: "n = 10 * v + d"
    by (auto simp: unsigned_decimal_def digits_value_snoc split: option.splits)
  have c: "c = digit_char d" and lt: "d < 10" using digit_value_inj [OF d] by simp_all
  show ?case
  proof (cases "s = []")
    case True
    then have "v = 0" using v by simp
    then show ?thesis using True n lt c by (simp add: digits_small)
  next
    case False
    then have h: "hd s \<noteq> CHR ''0''"
      using snoc.prems by (auto simp: unsigned_decimal_def)
    then have "unsigned_decimal s v"
      using False v by (simp add: unsigned_decimal_def)
    then have s: "s = digits v" by (rule snoc.IH)
    have "0 < v" using False h v by (rule leading_nonzero_positive)
    then have "\<not> n < 10" "n div 10 = v" "n mod 10 = d" using n lt by simp_all
    then show ?thesis using s c by (simp add: digits_large)
  qed
qed

lemma decimal_text_unique: "decimal_text t n \<Longrightarrow> t = number_toString n"
proof (cases "n < 0")
  case True
  assume "decimal_text t n"
  then have "t \<noteq> []" "hd t = CHR ''-''" "tl t = digits (nat (- n))"
    using True unsigned_decimal_unique [of "tl t" "nat (- n)"] by (simp_all add: decimal_text_def)
  then have "t = CHR ''-'' # digits (nat (- n))" by (cases t) simp_all
  then show ?thesis using True by (simp add: number_toString_def)
next
  case False
  assume "decimal_text t n"
  then show ?thesis
    using False unsigned_decimal_unique [of t "nat n"] by (simp add: decimal_text_def number_toString_def)
qed

text \<open>
  Claim C9. For a mousedown event the combo is the modifier prefix followed by
  \<open>middle_click\<close> when the button index is 1, and otherwise by \<open>mouse\<close> and the decimal
  text of the button index plus one, whichever string that text is; the primary button
  gives \<open>mouse1\<close>. An event object without a button index gives \<open>mouseNaN\<close>.
\<close>

theorem mousedown_combo:
  assumes "type_e e = ''mousedown''"
  shows "(button e = Some 1 \<longrightarrow> getComboFromEvent e = Inr (modifier_prefix e @ ''middle_click''))
         \<and> (button e = Some b \<and> b \<noteq> 1 \<longrightarrow>
              (\<exists>t. decimal_text t (sint b + 1) \<and>
                   getComboFromEvent e = Inr (modifier_prefix e @ ''mouse'' @ t)) \<and>
              (\<forall>t. decimal_text t (sint b + 1) \<longrightarrow>
                   getComboFromEvent e = Inr (modifier_prefix e @ ''mouse'' @ t)))
         \<and> (button e = Some 0 \<longrightarrow> getComboFromEvent e = Inr (modifier_prefix e @ ''mouse1''))
         \<and> (button e = None \<longrightarrow> getComboFromEvent e = Inr (modifier_prefix e @ ''mouseNaN''))"
proof (intro conjI impI)
  assume "button e = Some 1"
  then show "getComboFromEvent e = Inr (modifier_prefix e @ ''middle_click'')"
    using assms by (simp add: getCombo_mousedown)
next
  assume h: "button e = Some b \<and> b \<noteq> 1"
  then have c: "getComboFromEvent e =
                  Inr (modifier_prefix e @ ''mouse'' @ number_toString (sint b + 1))"
    using assms by (simp add: getCombo_mousedown)
  show "\<exists>t. decimal_text t (sint b + 1) \<and>
            getComboFromEvent e = Inr (modifier_prefix e @ ''mouse'' @ t)"
    using c decimal_text_number_toString [of "sint b + 1"] by blast
  show "\<forall>t. decimal_text t (sint b + 1) \<longrightarrow>
            getComboFromEvent e = Inr (modifier_prefix e @ ''mouse'' @ t)"
    using c decimal_text_unique [of _ "sint b + 1"] by auto
next
  assume "button e = Some 0"
  then show "getComboFromEvent e = Inr (modifier_prefix e @ ''mouse1'')"
    using assms by (simp add: getCombo_mousedown number_toString_def digits_small digit_char_def)
next
  assume "button e = None"
  then show "getComboFromEvent e = Inr (modifier_prefix e @ ''mouseNaN'')"
    using assms by (simp add: getCombo_mousedown)
qed

theorem mousedown_combo_witness:
  "getComboFromEvent \<lparr>type_e = ''mousedown'', shiftKey = False, ctrlKey = False, altKey = False,
       metaKey = False, key = None, deltaY = 0, button = Some 0\<rparr> = Inr ''mouse1''
   \<and> getComboFromEvent \<lparr>type_e = ''mousedown'', shiftKey = False, ctrlKey = True, altKey = False,
       metaKey = False, key = None, deltaY = 0, button = Some 1\<rparr> = Inr ''ctrl+middle_click''
   \<and> getComboFromEvent \<lparr>type_e = ''mousedown'', shiftKey = False, ctrlKey = False, altKey = False,
       metaKey = False, key = None, deltaY = 0, button = Some 2\<rparr> = Inr ''mouse3''
   \<and> getComboFromEvent \<lparr>type_e = ''mousedown'', shiftKey = False, ctrlKey = False, altKey = False,
       metaKey = False, key = None, deltaY = 0, button = Some 11\<rparr> = Inr ''mouse12''
   \<and> getComboFromEvent \<lparr>type_e = ''mousedown'', shiftKey = False, ctrlKey = False, altKey = False,
       metaKey = False, key = None, deltaY = 0, button = Some (- 3)\<rparr> = Inr ''mouse-2''
   \<and> getComboFromEvent \<lparr>type_e = ''mousedown'', shiftKey = False, ctrlKey = False, altKey = False,
       metaKey = False, key = None, deltaY = 0, button = None\<rparr> = Inr ''mouseNaN''"
proof -
  have d: "decimal_text ''3'' 3" "decimal_text ''12'' 12" "decimal_text ''-2'' (- 2)"
    by (simp_all add: decimal_text_def unsigned_decimal_def digit_value_def)
  show ?thesis
    using mousedown_combo [of "\<lparr>type_e = ''mousedown'', shiftKey = False, ctrlKey = False, altKey = False,
       metaKey = False, key = None, deltaY = 0, button = Some 0\<rparr>" 0]
      mousedown_combo [of "\<lparr>type_e = ''mousedown'', shiftKey = False, ctrlKey = True, altKey = False,
       metaKey = False, key = None, deltaY = 0, button = Some 1\<rparr>" 1]
      mousedown_combo [of "\<lparr>type_e = ''mousedown'', shiftKey = False, ctrlKey = False, altKey = False,
       metaKey = False, key = None, deltaY = 0, button = Some 2\<rparr>" 2]
      mousedown_combo [of "\<lparr>type_e = ''mousedown'', shiftKey = False, ctrlKey = False, altKey = False,
       metaKey = False, key = None, deltaY = 0, button = Some 11\<rparr>" 11]
      mousedown_combo [of "\<lparr>type_e = ''mousedown'', shiftKey = False, ctrlKey = False, altKey = False,
       metaKey = False, key = None, deltaY = 0, button = Some (- 3)\<rparr>" "- 3"]
      mousedown_combo [of "\<lparr>type_e = ''mousedown'', shiftKey = False, ctrlKey = False, altKey = False,
       metaKey = False, key = None, deltaY = 0, button = None\<rparr>" 0]
      d
    by (simp add: modifier_prefix_def)
qed

section \<open>Dispatch\<close>

lemma key_loop_concat:
  "key_loop run e c bs =
     concat (map (\<lambda>b. Call (callback b) #
                        (if run (callback b) e = JBool False
                         then [PreventDefault, StopPropagation] else []))
                 (filter (\<lambda>b. combo b = c) bs))"
  by (induction bs) simp_all

lemma calls_append: "calls (t @ u) = calls t @ calls u"
  by (induction t rule: calls.induct) simp_all

lemma calls_key_loop:
  "calls (key_loop run e c bs) = map callback (filter (\<lambda>b. combo b = c) bs)"
  by (induction bs) (simp_all add: calls_append)

lemma mouse_loop_take:
  "mouse_loop c bs = map (\<lambda>b. Call (callback b)) (take 1 (filter (\<lambda>b. combo b = c) bs))"
  by (induction bs) simp_all

lemma comboBound_iff: "comboBound c bs = (\<exists>b\<in>set bs. combo b = c)"
  by (induction bs) auto

lemma key_loop_Nil: "key_loop run e c [] = []"
  by simp

lemma toLowerCase_literals:
  "toLowerCase ''>'' = ''>''" "toLowerCase ''.'' = ''.''" "toLowerCase ''<'' = ''<''"
  "toLowerCase '','' = '',''" "toLowerCase '' '' = '' ''" "toLowerCase ''space'' = ''space''"
  by (simp_all add: toLowerCase_def to_lower_char_def is_upper_def)

lemma normalizeKey_literals:
  "normalizeKey ''>'' = ''.''" "normalizeKey ''.'' = ''.''" "normalizeKey ''<'' = '',''"
  "normalizeKey '','' = '',''" "normalizeKey '' '' = ''space''" "normalizeKey ''space'' = ''space''"
  by (simp_all add: normalizeKey_def toLowerCase_literals)

lemma alias_combo:
  assumes "alias_keys k1 k2"
  shows "normalizeKey (toLowerCase k1) = normalizeKey (toLowerCase k2)"
    and "toLowerCase k1 \<notin> {''shift'', ''control'', ''alt'', ''meta''}"
    and "normalizeKey (toLowerCase k1) \<noteq> []"
  using assms unfolding alias_keys_def
  by (elim disjE conjE; simp add: toLowerCase_literals normalizeKey_literals)+

lemma modifier_prefix_cong:
  "same_modifiers e1 e2 \<Longrightarrow> modifier_prefix e1 = modifier_prefix e2"
  by (simp add: same_modifiers_def modifier_prefix_def)

lemma alias_keys_sym: "alias_keys k1 k2 \<Longrightarrow> alias_keys k2 k1"
  by (auto simp: alias_keys_def)


text \<open>
  Claim C2. Two keydown events with the same modifier flags whose keys are aliases of
  one another (\<open>>\<close> and \<open>.\<close>, \<open><\<close> and \<open>,\<close>, the space character and \<open>space\<close>) have the
  same, non-empty combo; and once \<open>bind\<close> has stored \<open>shift+.\<close> with a callback in an
  empty registry, a keydown event with only shift set and the key \<open>>\<close> invokes that
  callback exactly once.
\<close>

theorem alias_keys_same_combo:
  "(type_e e1 = ''keydown'' \<and> type_e e2 = ''keydown'' \<and> same_modifiers e1 e2 \<and>
    key e1 = Some k1 \<and> key e2 = Some k2 \<and> alias_keys k1 k2
    \<longrightarrow> getComboFromEvent e1 = getComboFromEvent e2 \<and>
        (\<exists>c. c \<noteq> [] \<and> getComboFromEvent e1 = Inr c))
   \<and> (bind now rnd (JStr ''shift+.'') (JFun cb) [] = (bs, r)
      \<longrightarrow> snd (dispatchEvent run \<lparr>bindings = bs, modifierState = m\<rparr> (shift_gt_event d b)) =
            Inr (Call cb # (if run cb (shift_gt_event d b) = JBool False
                            then [PreventDefault, StopPropagation] else []))
          \<and> invoked (dispatchEvent run \<lparr>bindings = bs, modifierState = m\<rparr>
                       (shift_gt_event d b)) = [cb])"
proof -
  have part1: "getComboFromEvent e1 = getComboFromEvent e2 \<and>
        (\<exists>c. c \<noteq> [] \<and> getComboFromEvent e1 = Inr c)"
    if h: "type_e e1 = ''keydown'' \<and> type_e e2 = ''keydown'' \<and> same_modifiers e1 e2 \<and>
      key e1 = Some k1 \<and> key e2 = Some k2 \<and> alias_keys k1 k2"
  proof -
    from h have a: "alias_keys k1 k2" and a': "alias_keys k2 k1"
      by (simp_all add: alias_keys_sym)
    from h have c1: "getComboFromEvent e1 = Inr (modifier_prefix e1 @ normalizeKey (toLowerCase k1))"
      using alias_combo(2) [OF a] by (simp add: getCombo_key)
    from h have c2: "getComboFromEvent e2 = Inr (modifier_prefix e2 @ normalizeKey (toLowerCase k2))"
      using alias_combo(2) [OF a'] by (simp add: getCombo_key)
    from h have p: "modifier_prefix e1 = modifier_prefix e2"
      by (simp add: modifier_prefix_cong)
    show ?thesis
      using c1 c2 p alias_combo(1) [OF a] alias_combo(3) [OF a] by simp
  qed
  have part2: "snd (dispatchEvent run \<lparr>bindings = bs, modifierState = m\<rparr> (shift_gt_event d b)) =
            Inr (Call cb # (if run cb (shift_gt_event d b) = JBool False
                            then [PreventDefault, StopPropagation] else []))
          \<and> invoked (dispatchEvent run \<lparr>bindings = bs, modifierState = m\<rparr>
                       (shift_gt_event d b)) = [cb]"
    if h: "bind now rnd (JStr ''shift+.'') (JFun cb) [] = (bs, r)"
  proof -
    have "bind now rnd (JStr ''shift+.'') (JFun cb) [] =
            ([\<lparr>id_b = now + rnd, keys = map trim (split_plus (toLowerCase ''shift+.'')),
               combo = ''shift+.'', callback = cb\<rparr>], Inr (now + rnd))"
      by (simp add: bind_def parseCombo_def Let_def)
    with h have bs: "bs = [\<lparr>id_b = now + rnd, keys = map trim (split_plus (toLowerCase ''shift+.'')),
                          combo = ''shift+.'', callback = cb\<rparr>]"
      by simp
    have c: "getComboFromEvent (shift_gt_event d b) = Inr ''shift+.''"
      by (simp add: shift_gt_event_def getCombo_key toLowerCase_literals normalizeKey_literals
          modifier_prefix_def)
    have t: "type_e (shift_gt_event d b) = ''keydown''"
      by (simp add: shift_gt_event_def)
    show ?thesis
      by (simp add: dispatchEvent_def handleKeyEvent_def t c bs)
  qed
  from part1 part2 show ?thesis by blast
qed

theorem alias_keys_same_combo_witness:
  "getComboFromEvent (shift_gt_event 0 (Some 0)) = getComboFromEvent ((shift_gt_event 0 (Some 0))\<lparr>key := Some ''.''\<rparr>)
   \<and> getComboFromEvent (shift_gt_event 0 (Some 0)) = Inr ''shift+.''
   \<and> invoked (dispatchEvent (\<lambda>f e. JBool False)
         \<lparr>bindings = fst (bind 1700000000000 7 (JStr ''shift+.'') (JFun (1::nat)) []),
          modifierState = \<lparr>shift = True, ctrl = False, alt = False, meta = False\<rparr>\<rparr>
         (shift_gt_event 0 (Some 0))) = [1]"
proof -
  have a: "alias_keys ''>'' ''.''"
    by (simp add: alias_keys_def)
  have s: "same_modifiers (shift_gt_event 0 (Some 0)) ((shift_gt_event 0 (Some 0))\<lparr>key := Some ''.''\<rparr>)"
    by (simp add: same_modifiers_def)
  have k: "type_e (shift_gt_event 0 (Some 0)) = ''keydown''" "key (shift_gt_event 0 (Some 0)) = Some ''>''"
    by (simp_all add: shift_gt_event_def)
  have c: "getComboFromEvent (shift_gt_event 0 (Some 0)) = Inr ''shift+.''"
    by (simp add: shift_gt_event_def getCombo_key toLowerCase_literals normalizeKey_literals
        modifier_prefix_def)
  have b: "bind 1700000000000 7 (JStr ''shift+.'') (JFun (1::nat)) [] =
             (fst (bind 1700000000000 7 (JStr ''shift+.'') (JFun (1::nat)) []),
              snd (bind 1700000000000 7 (JStr ''shift+.'') (JFun (1::nat)) []))"
    by simp
  show ?thesis
    using alias_keys_same_combo [of "shift_gt_event 0 (Some 0)" "(shift_gt_event 0 (Some 0))\<lparr>key := Some ''.''\<rparr>"
        "''>''" "''.''" 1700000000000 7 "1::nat"
        "fst (bind 1700000000000 7 (JStr ''shift+.'') (JFun (1::nat)) [])"
        "snd (bind 1700000000000 7 (JStr ''shift+.'') (JFun (1::nat)) [])"
        "\<lambda>f e. JBool False" "\<lparr>shift = True, ctrl = False, alt = False, meta = False\<rparr>" 0
        "Some 0"]
      a s k c b
    by simp
qed

text \<open>
  Claim C8. A keydown event whose key is a bare modifier (shift, control, alt or meta, in
  any letter case) has the empty combo, and its dispatch invokes no callback and calls
  nothing, whatever the registry holds.
\<close>

theorem bare_modifier_no_callback:
  assumes "type_e e = ''keydown''"
    and "key e = Some k"
    and "toLowerCase k \<in> {''shift'', ''control'', ''alt'', ''meta''}"
  shows "getComboFromEvent e = Inr [] \<and> snd (dispatchEvent run st e) = Inr []
         \<and> invoked (dispatchEvent run st e) = []"
proof -
  have c: "getComboFromEvent e = Inr []"
    using assms by (simp add: getCombo_key)
  then show ?thesis
    using assms(1) by (simp add: dispatchEvent_def handleKeyEvent_def)
qed

theorem bare_modifier_no_callback_witness:
  "getComboFromEvent shift_key_event = Inr []
   \<and> snd (dispatchEvent (\<lambda>f e. JBool False)
        \<lparr>bindings = sample_registry,
         modifierState = \<lparr>shift = False, ctrl = False, alt = False, meta = False\<rparr>\<rparr>
        shift_key_event) = Inr []"
proof -
  have l: "toLowerCase ''Shift'' = ''shift''"
    by (simp add: toLowerCase_def to_lower_char_def is_upper_def)
  show ?thesis
    using bare_modifier_no_callback [of shift_key_event "''Shift''" "\<lambda>f e. JBool False"
        "\<lparr>bindings = sample_registry,
         modifierState = \<lparr>shift = False, ctrl = False, alt = False, meta = False\<rparr>\<rparr>"] l
    by (simp add: shift_key_event_def)
qed

text \<open>
  Claim C10. After \<open>unbindAll\<close> the registry is empty, and until the next \<open>bind\<close> the
  dispatch of any event, from any earlier registry, invokes no callback: the listener
  returns with the empty trace or throws before it looks at the registry.
\<close>

lemma error_unique: "(a::error) = b"
  by (cases a, cases b) simp

theorem unbindAll_no_callback:
  "unbindAll bs = []
   \<and> (snd (dispatchEvent run (st\<lparr>bindings := unbindAll (bindings st)\<rparr>) e) = Inr []
      \<or> snd (dispatchEvent run (st\<lparr>bindings := unbindAll (bindings st)\<rparr>) e) = Inl TypeError)
   \<and> invoked (dispatchEvent run (st\<lparr>bindings := unbindAll (bindings st)\<rparr>) e) = []"
proof -
  have "snd (dispatchEvent run (st\<lparr>bindings := []\<rparr>) e) = Inr []
      \<or> snd (dispatchEvent run (st\<lparr>bindings := []\<rparr>) e) = Inl TypeError"
    by (cases "getComboFromEvent e")
       (auto simp: dispatchEvent_def handleKeyEvent_def handleMouseEvent_def mousedownListener_def
          split: sum.splits intro: error_unique)
  moreover have "invoked (dispatchEvent run (st\<lparr>bindings := []\<rparr>) e) = []"
    by (cases "getComboFromEvent e")
       (auto simp: dispatchEvent_def handleKeyEvent_def handleMouseEvent_def mousedownListener_def
          split: sum.splits)
  ultimately show ?thesis by (simp add: unbindAll_def)
qed

theorem unbindAll_no_callback_witness:
  "invoked (dispatchEvent sample_run \<lparr>bindings = sample_registry, modifierState = no_modifiers\<rparr>
              (shift_gt_event 0 (Some 0))) = [2]
   \<and> invoked (dispatchEvent sample_run
                \<lparr>bindings = unbindAll sample_registry, modifierState = no_modifiers\<rparr>
                (shift_gt_event 0 (Some 0))) = []"
proof -
  have c: "getComboFromEvent (shift_gt_event 0 (Some 0)) = Inr ''shift+.''"
    by (simp add: shift_gt_event_def getCombo_key toLowerCase_literals normalizeKey_literals
        modifier_prefix_def)
  have t: "type_e (shift_gt_event 0 (Some 0)) = ''keydown''"
    by (simp add: shift_gt_event_def)
  have before: "invoked (dispatchEvent sample_run
        \<lparr>bindings = sample_registry, modifierState = no_modifiers\<rparr> (shift_gt_event 0 (Some 0))) = [2]"
    by (simp add: dispatchEvent_def handleKeyEvent_def t c sample_registry_def)
  show ?thesis
    using unbindAll_no_callback [of sample_registry sample_run
        "\<lparr>bindings = sample_registry, modifierState = no_modifiers\<rparr>" "shift_gt_event 0 (Some 0)"]
      before
    by (simp add: unbindAll_def)
qed

lemma getCombo_wheel_nonempty: "type_e e = ''wheel'' \<Longrightarrow> getComboFromEvent e \<noteq> Inr []"
  by (simp add: getCombo_wheel)

lemma getCombo_mousedown_nonempty: "type_e e = ''mousedown'' \<Longrightarrow> getComboFromEvent e \<noteq> Inr []"
  by (simp add: getCombo_mousedown)

lemma dispatch_keydown:
  assumes "type_e e = ''keydown''" and "getComboFromEvent e = Inr c" and "c \<noteq> []"
  shows "snd (dispatchEvent run st e) = Inr (key_loop run e c (bindings st))"
  using assms by (simp add: dispatchEvent_def handleKeyEvent_def)

lemma dispatch_wheel:
  assumes "type_e e = ''wheel''" and "getComboFromEvent e = Inr c"
  shows "snd (dispatchEvent run st e) = Inr (mouse_loop c (bindings st))"
proof -
  have "c \<noteq> []" using assms getCombo_wheel_nonempty by auto
  then show ?thesis using assms by (simp add: dispatchEvent_def handleMouseEvent_def)
qed

lemma dispatch_mousedown:
  assumes "type_e e = ''mousedown''" and "getComboFromEvent e = Inr c"
  shows "snd (dispatchEvent run st e) =
           Inr (if button e \<noteq> Some 0 \<and> comboBound c (bindings st)
                then [PreventDefault, StopPropagation] @ mouse_loop c (bindings st) else [])"
proof -
  have "c \<noteq> []" using assms getCombo_mousedown_nonempty by auto
  then show ?thesis
    using assms by (simp add: dispatchEvent_def mousedownListener_def handleMouseEvent_def)
qed

text \<open>
  The traces of the three listeners. In a keydown dispatch the listener calls
  \<open>preventDefault\<close> and \<open>stopPropagation\<close> right after a matched callback exactly when that
  callback returned the boolean \<open>false\<close>, and after no other return value. In a wheel or
  mousedown dispatch the trace does not depend on what the callback returns:
  \<open>handleMouseEvent\<close> only invokes the callback. The two calls that suppress a mousedown
  are made by the mousedown listener before it dispatches, when the button is not the
  primary one and the combo is bound. \<open>handleMouseEvent\<close> is itself the wheel listener,
  so a wheel dispatch has no such caller and its trace holds neither call.
\<close>

lemma listener_traces:
  "(type_e e = ''keydown'' \<and> getComboFromEvent e = Inr c \<and> c \<noteq> [] \<longrightarrow>
      snd (dispatchEvent run st e) =
        Inr (concat (map (\<lambda>b. Call (callback b) #
                               (if run (callback b) e = JBool False
                                then [PreventDefault, StopPropagation] else []))
                         (filter (\<lambda>b. combo b = c) (bindings st)))))
   \<and> (type_e e = ''wheel'' \<and> getComboFromEvent e = Inr c \<longrightarrow>
      snd (dispatchEvent run st e) =
        Inr (map (\<lambda>b. Call (callback b)) (take 1 (filter (\<lambda>b. combo b = c) (bindings st)))))
   \<and> (type_e e = ''mousedown'' \<and> getComboFromEvent e = Inr c \<longrightarrow>
      snd (dispatchEvent run st e) =
        Inr (if button e \<noteq> Some 0 \<and> (\<exists>b\<in>set (bindings st). combo b = c)
             then [PreventDefault, StopPropagation] @
                  map (\<lambda>b. Call (callback b)) (take 1 (filter (\<lambda>b. combo b = c) (bindings st)))
             else []))"
  by (simp add: dispatch_keydown dispatch_wheel dispatch_mousedown key_loop_concat
      mouse_loop_take comboBound_iff)

lemma listener_traces_example:
  "snd (dispatchEvent sample_run \<lparr>bindings = mixed_registry, modifierState = no_modifiers\<rparr>
          key_a_event) = Inr [Call 1, PreventDefault, StopPropagation, Call 2]
   \<and> snd (dispatchEvent sample_run \<lparr>bindings = mixed_registry, modifierState = no_modifiers\<rparr>
          wheel_up_event) = Inr [Call 1]
   \<and> snd (dispatchEvent sample_run \<lparr>bindings = mixed_registry, modifierState = no_modifiers\<rparr>
          right_click_event) = Inr [PreventDefault, StopPropagation, Call 1]"
proof -
  have k: "type_e key_a_event = ''keydown''" "getComboFromEvent key_a_event = Inr ''a''"
    by (simp_all add: key_a_event_def getCombo_key modifier_prefix_def normalizeKey_def
        toLowerCase_def to_lower_char_def is_upper_def)
  have w: "type_e wheel_up_event = ''wheel''" "getComboFromEvent wheel_up_event = Inr ''wheel_up''"
    by (simp_all add: wheel_up_event_def getCombo_wheel modifier_prefix_def)
  have r: "type_e right_click_event = ''mousedown''" "button right_click_event = Some 2"
    "getComboFromEvent right_click_event = Inr ''mouse3''"
    by (simp_all add: right_click_event_def getCombo_mousedown modifier_prefix_def
        number_toString_def digits_small digit_char_def)
  show ?thesis
    using listener_traces [of key_a_event "''a''" sample_run
        "\<lparr>bindings = mixed_registry, modifierState = no_modifiers\<rparr>"]
      listener_traces [of wheel_up_event "''wheel_up''" sample_run
        "\<lparr>bindings = mixed_registry, modifierState = no_modifiers\<rparr>"]
      listener_traces [of right_click_event "''mouse3''" sample_run
        "\<lparr>bindings = mixed_registry, modifierState = no_modifiers\<rparr>"]
      k w r
    by (simp add: mixed_registry_def sample_run_def)
qed

lemma wheel_registry_eq:
  "wheel_registry =
     [\<lparr>id_b = 1700000000001, keys = [''wheel_up''], combo = ''wheel_up'', callback = 1\<rparr>]"
  by (simp add: wheel_registry_def bind_def parseCombo_def Let_def toLowerCase_def
      to_lower_char_def is_upper_def trim_def is_space_def)

lemma mouse3_registry_eq:
  "mouse3_registry =
     [\<lparr>id_b = 1700000000001, keys = [''mouse3''], combo = ''mouse3'', callback = 1\<rparr>]"
  by (simp add: mouse3_registry_def bind_def parseCombo_def Let_def toLowerCase_def
      to_lower_char_def is_upper_def trim_def is_space_def)

text \<open>
  Claim C5. For wheel and mouse-button dispatch the default is to be prevented by the
  caller before the dispatch, as the comment in \<open>handleMouseEvent\<close> says it already was.
  With \<open>wheel_up\<close> bound to a callback that returns \<open>false\<close>, a wheel event with a negative
  \<open>deltaY\<close> invokes the callback, and the trace of the dispatch holds no call of
  \<open>preventDefault\<close> or \<open>stopPropagation\<close>: the wheel listener is \<open>handleMouseEvent\<close> itself
  and has no caller in the handler. The mousedown listener, with \<open>mouse3\<close> bound to the
  same callback, makes both calls before it dispatches a press of the right button.
\<close>

theorem wheel_default_not_prevented:
  "sample_run 1 wheel_up_event = JBool False
   \<and> getComboFromEvent wheel_up_event = Inr ''wheel_up''
   \<and> snd (dispatchEvent sample_run \<lparr>bindings = wheel_registry, modifierState = no_modifiers\<rparr>
            wheel_up_event) = Inr [Call 1]
   \<and> snd (dispatchEvent sample_run \<lparr>bindings = mouse3_registry, modifierState = no_modifiers\<rparr>
            right_click_event) = Inr [PreventDefault, StopPropagation, Call 1]"
proof -
  have w: "type_e wheel_up_event = ''wheel''" "getComboFromEvent wheel_up_event = Inr ''wheel_up''"
    by (simp_all add: wheel_up_event_def getCombo_wheel modifier_prefix_def)
  have r: "type_e right_click_event = ''mousedown''" "button right_click_event = Some 2"
    by (simp_all add: right_click_event_def)
  have c: "getComboFromEvent right_click_event = Inr ''mouse3''"
    by (simp add: getCombo_mousedown r) 
       (simp add: right_click_event_def modifier_prefix_def number_toString_def digits_small
          digit_char_def)
  show ?thesis
    by (simp add: w r c dispatchEvent_def handleMouseEvent_def mousedownListener_def
        wheel_registry_eq mouse3_registry_eq sample_run_def)
qed

text \<open>
  The keydown listener invokes every binding of the combo, in registry order; the wheel
  listener invokes only the first one.
\<close>

lemma keydown_invokes_all:
  assumes "type_e e = ''keydown''" and "getComboFromEvent e = Inr c" and "c \<noteq> []"
  shows "invoked (dispatchEvent run st e) = map callback (filter (\<lambda>b. combo b = c) (bindings st))"
  using assms by (simp add: dispatchEvent_def handleKeyEvent_def calls_key_loop)

lemma calls_mouse_loop:
  "calls (mouse_loop c bs) = map callback (take 1 (filter (\<lambda>b. combo b = c) bs))"
  by (induction bs) simp_all

lemma wheel_invokes_first:
  assumes "type_e e = ''wheel''" and "getComboFromEvent e = Inr c"
  shows "invoked (dispatchEvent run st e) =
           map callback (take 1 (filter (\<lambda>b. combo b = c) (bindings st)))"
proof -
  have "c \<noteq> []" using assms getCombo_wheel_nonempty by auto
  then show ?thesis
    using assms by (simp add: dispatchEvent_def handleMouseEvent_def calls_mouse_loop)
qed

lemma two_wheel_bindings_eq:
  "two_wheel_bindings =
     [\<lparr>id_b = 1700000000001, keys = [''wheel_up''], combo = ''wheel_up'', callback = 1\<rparr>,
      \<lparr>id_b = 1700000000002, keys = [''wheel_up''], combo = ''wheel_up'', callback = 2\<rparr>]"
  by (simp add: two_wheel_bindings_def bind_def parseCombo_def Let_def toLowerCase_def
      to_lower_char_def is_upper_def trim_def is_space_def)

text \<open>
  Claim C1. The dispatcher is to invoke the callback of every binding whose combo equals
  the combo of the event, in insertion order. With \<open>wheel_up\<close> bound twice, to the
  callbacks 1 and 2, a wheel event with a negative \<open>deltaY\<close> has both bindings as
  matches, and \<open>handleMouseEvent\<close> invokes callback 1 only.
\<close>

theorem wheel_dispatch_first_match_only:
  "map callback (filter (\<lambda>b. combo b = ''wheel_up'') two_wheel_bindings) = [1, 2]
   \<and> getComboFromEvent wheel_up_event = Inr ''wheel_up''
   \<and> snd (dispatchEvent sample_run \<lparr>bindings = two_wheel_bindings, modifierState = no_modifiers\<rparr>
            wheel_up_event) = Inr [Call 1]
   \<and> invoked (dispatchEvent sample_run
                \<lparr>bindings = two_wheel_bindings, modifierState = no_modifiers\<rparr>
                wheel_up_event) = [1]"
proof -
  have w: "type_e wheel_up_event = ''wheel''" "getComboFromEvent wheel_up_event = Inr ''wheel_up''"
    by (simp_all add: wheel_up_event_def getCombo_wheel modifier_prefix_def)
  show ?thesis
    by (simp add: w dispatchEvent_def handleMouseEvent_def two_wheel_bindings_eq)
qed

section \<open>The registry\<close>

lemma parseCombo_str: "s \<noteq> [] \<Longrightarrow> parseCombo (JStr s) = Inr (map trim (split_plus (toLowerCase s)))"
  by (simp add: parseCombo_def)

lemma parseCombo_non_string:
  "truthy v \<Longrightarrow> typeof v \<noteq> ''string'' \<Longrightarrow> parseCombo v = Inl TypeError"
  by (cases v) (simp_all add: parseCombo_def)

lemma bind_rejects:
  "\<not> truthy c \<or> typeof f \<noteq> ''function'' \<Longrightarrow> bind now rnd c f bs = (bs, Inr (- 1))"
  by (simp add: bind_def)

lemma bind_accepts:
  "s \<noteq> [] \<Longrightarrow>
   bind now rnd (JStr s) (JFun f) bs =
     (bs @ [\<lparr>id_b = now + rnd, keys = map trim (split_plus (toLowerCase s)), combo = s,
             callback = f\<rparr>], Inr (now + rnd))"
  by (simp add: bind_def parseCombo_str Let_def)

lemma has_toLowerCase_typeof: "has_toLowerCase v \<longleftrightarrow> typeof v = ''string''"
  by (cases v) simp_all

lemma bind_throws:
  "truthy c \<Longrightarrow> \<not> has_toLowerCase c \<Longrightarrow> bind now rnd c (JFun f) bs = (bs, Inl TypeError)"
  by (simp add: bind_def parseCombo_non_string has_toLowerCase_typeof Let_def)

text \<open>
  A combo argument that is truthy and has no \<open>toLowerCase\<close> method passes the guard of
  \<open>bind\<close>, and \<open>parseCombo\<close> then calls that method on it: \<open>bind(5, f)\<close> throws instead of
  returning the sentinel. The registry is as it was.
\<close>

theorem bind_non_string_combo_throws:
  "bind 1700000000000 7 (JNum 5) (JFun 1) sample_registry = (sample_registry, Inl TypeError)
   \<and> snd (bind 1700000000000 7 (JNum 5) (JFun 1) sample_registry) \<noteq> Inr (- 1)"
  by (simp add: bind_throws)

text \<open>
  Claim C6, as the code has it. \<open>bind\<close> returns the sentinel \<open>-1\<close> and leaves the registry
  unchanged when the combo argument is falsy (the empty string, \<open>undefined\<close>, \<open>null\<close>,
  \<open>0\<close>, \<open>NaN\<close>, \<open>false\<close>) or the callback argument is not a function. Every non-empty
  string is accepted as a combo: with a function callback, \<open>bind\<close> appends one binding
  that holds the string as it is and the callback, under the identifier
  \<open>Date.now() + Math.floor(Math.random() * 1000)\<close>, which it returns; for an ASCII
  string the token list of the binding is the one \<open>parseCombo\<close> computes. A truthy combo
  argument without a \<open>toLowerCase\<close> method (a number other than zero, \<open>true\<close>, a function,
  an object that lacks the method), with a function callback, makes \<open>bind\<close> throw a
  \<open>TypeError\<close>, the registry unchanged.
\<close>

theorem bind_outcomes:
  "(\<not> truthy combo_arg \<or> typeof callback_arg \<noteq> ''function''
      \<longrightarrow> bind now rnd combo_arg callback_arg bs = (bs, Inr (- 1)))
   \<and> (s \<noteq> []
      \<longrightarrow> (\<exists>ks. bind now rnd (JStr s) (JFun f) bs =
                 (bs @ [\<lparr>id_b = now + rnd, keys = ks, combo = s, callback = f\<rparr>],
                  Inr (now + rnd))) \<and>
          (ascii_string s \<longrightarrow>
             bind now rnd (JStr s) (JFun f) bs =
               (bs @ [\<lparr>id_b = now + rnd, keys = map trim (split_plus (toLowerCase s)),
                       combo = s, callback = f\<rparr>], Inr (now + rnd))))
   \<and> (truthy combo_arg \<and> \<not> has_toLowerCase combo_arg
      \<longrightarrow> bind now rnd combo_arg (JFun f) bs = (bs, Inl TypeError))"
  using bind_rejects [of combo_arg callback_arg now rnd bs] bind_accepts [of s now rnd f bs]
    bind_throws [of combo_arg now rnd f bs]
  by blast

theorem bind_outcomes_witness:
  "bind 1700000000000 7 (JStr []) (JFun 3) sample_registry = (sample_registry, Inr (- 1))
   \<and> bind 1700000000000 7 JUndefined (JFun 3) sample_registry = (sample_registry, Inr (- 1))
   \<and> bind 1700000000000 7 (JStr ''a'') (JStr ''f'') sample_registry = (sample_registry, Inr (- 1))
   \<and> bind 1700000000000 7 (JStr ''+ +'') (JFun 3) sample_registry =
       (sample_registry @ [\<lparr>id_b = 1700000000007, keys = [[], [], []], combo = ''+ +'', callback = 3\<rparr>],
        Inr 1700000000007)
   \<and> bind 1700000000000 7 (JBool True) (JFun 3) sample_registry = (sample_registry, Inl TypeError)"
  using bind_outcomes [of "JStr []" "JFun 3" 1700000000000 7 sample_registry "''a''" 3]
    bind_outcomes [of "JUndefined" "JFun 3" 1700000000000 7 sample_registry "''a''" 3]
    bind_outcomes [of "JStr ''a''" "JStr ''f''" 1700000000000 7 sample_registry "''a''" 3]
    bind_outcomes [of "JBool True" "JFun 3" 1700000000000 7 sample_registry "''+ +''" 3]
  by (simp add: toLowerCase_def to_lower_char_def is_upper_def trim_def is_space_def
      ascii_string_def)

lemma findIndex_none: "(\<forall>x\<in>set xs. \<not> P x) \<Longrightarrow> findIndex P xs = - 1"
  by (induction xs) simp_all

lemma findIndex_nonneg: "findIndex P xs \<noteq> - 1 \<Longrightarrow> 0 \<le> findIndex P xs"
  by (induction xs) (auto simp: Let_def split: if_splits)

lemma findIndex_first:
  "(\<forall>y\<in>set pre. \<not> P y) \<Longrightarrow> P x \<Longrightarrow> findIndex P (pre @ x # post) = int (length pre)"
proof (induction pre)
  case Nil
  then show ?case by simp
next
  case (Cons a pre)
  then show ?case by (simp add: Let_def)
qed

lemma splice_one_middle: "splice_one (length pre) (pre @ x # post) = pre @ post"
  by (simp add: splice_one_def)

lemma unbind_loop_filter:
  "k \<le> length bs \<Longrightarrow>
   unbind_loop k v bs found =
     (filter (\<lambda>b. \<not> strict_eq_str (combo b) v) (take k bs) @ drop k bs,
      found \<or> (\<exists>b\<in>set (take k bs). strict_eq_str (combo b) v))"
proof (induction k arbitrary: bs found)
  case 0
  show ?case by simp
next
  case (Suc k)
  then have k: "k < length bs" by simp
  have t: "take (Suc k) bs = take k bs @ [bs ! k]"
    using k by (simp add: take_Suc_conv_app_nth)
  show ?case
  proof (cases "strict_eq_str (combo (bs ! k)) v")
    case True
    have l: "k \<le> length (splice_one k bs)"
      using k by (simp add: splice_one_def)
    have tk: "take k (splice_one k bs) = take k bs"
      using k by (simp add: splice_one_def)
    have dk: "drop k (splice_one k bs) = drop (Suc k) bs"
      using k by (simp add: splice_one_def)
    show ?thesis
      using True Suc.IH [OF l] by (simp add: t tk dk)
  next
    case False
    have d: "drop k bs = bs ! k # drop (Suc k) bs"
      using k by (simp add: Cons_nth_drop_Suc)
    have l: "k \<le> length bs" using k by simp
    show ?thesis
      using False Suc.IH [OF l] by (simp add: t d)
  qed
qed

lemma unbind_string:
  "s \<noteq> [] \<Longrightarrow>
   unbind (JStr s) bs = (filter (\<lambda>b. combo b \<noteq> s) bs, \<exists>b\<in>set bs. combo b = s)"
  by (simp add: unbind_def unbind_loop_filter)

lemma unbind_falsy: "\<not> truthy v \<Longrightarrow> unbind v bs = (bs, False)"
  by (simp add: unbind_def)

lemma unbind_number_absent:
  "(\<forall>x\<in>set bs. real_of_int (id_b x) \<noteq> r) \<Longrightarrow> unbind (JNum r) bs = (bs, False)"
  by (simp add: unbind_def findIndex_none)

lemma unbind_number_present:
  assumes "r \<noteq> 0" and "\<forall>x\<in>set pre. real_of_int (id_b x) \<noteq> r" and "real_of_int (id_b b) = r"
  shows "unbind (JNum r) (pre @ b # post) = (pre @ post, True)"
proof -
  have "findIndex (\<lambda>x. strict_eq_num (id_b x) (JNum r)) (pre @ b # post) = int (length pre)"
    using assms by (intro findIndex_first) simp_all
  then show ?thesis
    using assms(1) by (simp add: unbind_def splice_one_middle)
qed

lemma unbind_other:
  "typeof v \<noteq> ''number'' \<Longrightarrow> typeof v \<noteq> ''string'' \<Longrightarrow> unbind v bs = (bs, False)"
  by (cases v) (simp_all add: unbind_def unbind_loop_filter)

text \<open>
  The empty registry is reachable, and \<open>bind\<close> (at a positive time), \<open>unbind\<close> and
  \<open>unbindAll\<close> keep a registry reachable.
\<close>

lemma registry_ok_Nil: "registry_ok []"
  by (simp add: registry_ok_def)

lemma registry_ok_bind:
  assumes "registry_ok bs" and "0 < now" and "0 \<le> rnd"
  shows "registry_ok (fst (bind now rnd c f bs))"
proof (cases "\<not> truthy c \<or> typeof f \<noteq> ''function''")
  case True
  then show ?thesis using assms(1) by (simp add: bind_rejects)
next
  case False
  then obtain g where f: "f = JFun g" by (cases f) simp_all
  show ?thesis
  proof (cases "typeof c = ''string''")
    case True
    with False obtain s where "c = JStr s" "s \<noteq> []" by (cases c) simp_all
    then show ?thesis
      using assms by (simp add: f bind_accepts registry_ok_def)
  next
    case False
    with \<open>\<not> (\<not> truthy c \<or> typeof f \<noteq> ''function'')\<close> show ?thesis
      using assms(1) by (simp add: f bind_throws has_toLowerCase_typeof)
  qed
qed

lemma unbind_cases:
  assumes "registry_ok bs"
  shows "unbind v bs = (bs, False) \<or>
         (snd (unbind v bs) \<and> length (fst (unbind v bs)) < length bs \<and>
          set (fst (unbind v bs)) \<subseteq> set bs)"
proof (cases "truthy v")
  case False
  then show ?thesis by (simp add: unbind_falsy)
next
  case True
  show ?thesis
  proof (cases v)
    case (JNum r)
    show ?thesis
    proof (cases "\<exists>x\<in>set bs. real_of_int (id_b x) = r")
      case True
      then obtain pre b post where
        "bs = pre @ b # post" "real_of_int (id_b b) = r" "\<forall>x\<in>set pre. real_of_int (id_b x) \<noteq> r"
        using split_list_first_prop [of bs "\<lambda>x. real_of_int (id_b x) = r"] by blast
      moreover have "r \<noteq> 0" using \<open>truthy v\<close> JNum by simp
      ultimately show ?thesis
        using JNum by (auto simp: unbind_number_present)
    next
      case False
      then show ?thesis using JNum by (simp add: unbind_number_absent)
    qed
  next
    case (JStr s)
    then have u: "unbind v bs = (filter (\<lambda>b. combo b \<noteq> s) bs, \<exists>b\<in>set bs. combo b = s)"
      using True by (simp add: unbind_string)
    show ?thesis
    proof (cases "\<exists>b\<in>set bs. combo b = s")
      case True
      then obtain b where "b \<in> set bs" "\<not> combo b \<noteq> s" by blast
      then have "length (filter (\<lambda>b. combo b \<noteq> s) bs) < length bs"
        by (rule length_filter_less)
      then show ?thesis using True u by auto
    next
      case False
      then have "filter (\<lambda>b. combo b \<noteq> s) bs = bs"
        by (simp add: filter_id_conv)
      then show ?thesis using False u by simp
    qed
  qed (simp_all add: unbind_other unbind_falsy)
qed

lemma registry_ok_unbind: "registry_ok bs \<Longrightarrow> registry_ok (fst (unbind v bs))"
  using unbind_cases [of bs v] by (auto simp: registry_ok_def)

lemma registry_ok_unbindAll: "registry_ok (unbindAll bs)"
  by (simp add: registry_ok_def unbindAll_def)

text \<open>
  Claim C7. On a registry the handler can reach, \<open>unbind\<close> with a number removes the
  first binding with that identifier and nothing else, or nothing when no binding has
  it; with a string it removes every binding whose stored combo equals the string; in
  all cases it returns true exactly when the registry became shorter, and leaves the
  registry as it was when it returns false.
\<close>

theorem unbind_removes:
  assumes "registry_ok bs"
  shows "((\<exists>pre b post. bs = pre @ b # post \<and> real_of_int (id_b b) = r \<and>
             (\<forall>x\<in>set pre. real_of_int (id_b x) \<noteq> r) \<and>
             unbind (JNum r) bs = (pre @ post, True))
          \<or> ((\<forall>x\<in>set bs. real_of_int (id_b x) \<noteq> r) \<and> unbind (JNum r) bs = (bs, False)))
         \<and> unbind (JStr s) bs = (filter (\<lambda>b. combo b \<noteq> s) bs, \<exists>b\<in>set bs. combo b = s)
         \<and> (snd (unbind v bs) \<longleftrightarrow> length (fst (unbind v bs)) < length bs)
         \<and> (\<not> snd (unbind v bs) \<longrightarrow> fst (unbind v bs) = bs)"
proof (intro conjI)
  show "(\<exists>pre b post. bs = pre @ b # post \<and> real_of_int (id_b b) = r \<and>
             (\<forall>x\<in>set pre. real_of_int (id_b x) \<noteq> r) \<and>
             unbind (JNum r) bs = (pre @ post, True))
          \<or> ((\<forall>x\<in>set bs. real_of_int (id_b x) \<noteq> r) \<and> unbind (JNum r) bs = (bs, False))"
  proof (cases "\<exists>x\<in>set bs. real_of_int (id_b x) = r")
    case True
    then obtain pre b post where
      d: "bs = pre @ b # post" "real_of_int (id_b b) = r" "\<forall>x\<in>set pre. real_of_int (id_b x) \<noteq> r"
      using split_list_first_prop [of bs "\<lambda>x. real_of_int (id_b x) = r"] by blast
    then have "id_b b \<noteq> 0" using assms by (simp add: registry_ok_def)
    then have "r \<noteq> 0" using d(2) by auto
    then have "unbind (JNum r) bs = (pre @ post, True)"
      using d by (simp add: unbind_number_present)
    then show ?thesis using d by blast
  next
    case False
    then show ?thesis by (simp add: unbind_number_absent)
  qed
next
  show "unbind (JStr s) bs = (filter (\<lambda>b. combo b \<noteq> s) bs, \<exists>b\<in>set bs. combo b = s)"
  proof (cases "s = []")
    case True
    have "filter (\<lambda>b. combo b \<noteq> []) bs = bs"
      using assms by (simp add: registry_ok_def)
    moreover have "\<not> (\<exists>b\<in>set bs. combo b = [])"
      using assms by (simp add: registry_ok_def)
    ultimately show ?thesis using True by (simp add: unbind_falsy)
  next
    case False
    then show ?thesis by (simp add: unbind_string)
  qed
next
  show "snd (unbind v bs) \<longleftrightarrow> length (fst (unbind v bs)) < length bs"
    using unbind_cases [OF assms, of v] by auto
next
  show "\<not> snd (unbind v bs) \<longrightarrow> fst (unbind v bs) = bs"
    using unbind_cases [OF assms, of v] by auto
qed

theorem unbind_removes_witness:
  "registry_ok mixed_registry
   \<and> unbind (JStr ''a'') mixed_registry =
       ([\<lparr>id_b = 1700000000003, keys = [''wheel_up''], combo = ''wheel_up'', callback = 1\<rparr>,
         \<lparr>id_b = 1700000000004, keys = [''mouse3''], combo = ''mouse3'', callback = 1\<rparr>], True)
   \<and> unbind (JNum 1700000000002) mixed_registry =
       ([\<lparr>id_b = 1700000000001, keys = [''a''], combo = ''a'', callback = 1\<rparr>,
         \<lparr>id_b = 1700000000003, keys = [''wheel_up''], combo = ''wheel_up'', callback = 1\<rparr>,
         \<lparr>id_b = 1700000000004, keys = [''mouse3''], combo = ''mouse3'', callback = 1\<rparr>], True)
   \<and> unbind (JNum 5) mixed_registry = (mixed_registry, False)"
proof -
  have ok: "registry_ok mixed_registry"
    by (simp add: registry_ok_def mixed_registry_def)
  have n: "unbind (JNum 1700000000002) mixed_registry =
       ([\<lparr>id_b = 1700000000001, keys = [''a''], combo = ''a'', callback = 1\<rparr>,
         \<lparr>id_b = 1700000000003, keys = [''wheel_up''], combo = ''wheel_up'', callback = 1\<rparr>,
         \<lparr>id_b = 1700000000004, keys = [''mouse3''], combo = ''mouse3'', callback = 1\<rparr>], True)"
    by (simp add: unbind_def mixed_registry_def splice_one_def)
  have m: "unbind (JNum 5) mixed_registry = (mixed_registry, False)"
    by (simp add: unbind_def mixed_registry_def)
  show ?thesis
    using unbind_removes [OF ok, of 5 "''a''" "JNum 5"] ok n m
    by (simp add: mixed_registry_def)
qed

section \<open>Bindings that no event reaches\<close>















text \<open>A key of one character that is not an ASCII control character is plain.\<close>

lemma single_char_plain_key:
  assumes "13 < (of_char c :: nat)"
  shows "plain_key [c]"
proof (cases "c = CHR '' ''")
  case True
  then show ?thesis by (simp add: plain_key_def)
next
  case False
  have "(of_char c :: nat) \<noteq> 32"
  proof
    assume "(of_char c :: nat) = 32"
    then have "(of_char c :: nat) = of_char (CHR '' '')" by simp
    then have "c = CHR '' ''" by (simp only: of_char_eq_iff)
    then show False using False by simp
  qed
  then have "\<not> is_space c" using assms by (simp add: is_space_def)
  then show ?thesis by (auto simp: plain_key_def)
qed






















text \<open>
  A mousedown event object without a button index passes the test of the mousedown
  listener for a button other than the primary one, and its combo is \<open>mouseNaN\<close>: a
  binding stored under that string, which holds an upper-case letter, is invoked.
\<close>

lemma no_button_binding_invoked:
  "has_upper ''mouseNaN''
   \<and> getComboFromEvent no_button_event = Inr ''mouseNaN''
   \<and> snd (dispatchEvent sample_run
         \<lparr>bindings = [\<lparr>id_b = 1700000000001, keys = [''mousenan''], combo = ''mouseNaN'',
                       callback = 1\<rparr>],
          modifierState = no_modifiers\<rparr> no_button_event) =
       Inr [PreventDefault, StopPropagation, Call 1]"
proof -
  have u: "has_upper ''mouseNaN''"
    by (simp add: has_upper_def is_upper_def)
  have t: "type_e no_button_event = ''mousedown''" "button no_button_event = None"
    by (simp_all add: no_button_event_def)
  have c: "getComboFromEvent no_button_event = Inr ''mouseNaN''"
    by (simp add: getCombo_mousedown t) (simp add: no_button_event_def modifier_prefix_def)
  show ?thesis
    using u c by (simp add: dispatchEvent_def mousedownListener_def handleMouseEvent_def t)
qed



end
